theory Spec2Isabelle
  imports Main
begin

section \<open>The CSV logger of qml-logger (src/CSVLogger.cpp)\<close>

text \<open>
  The class \<open>QMLLogger::CSVLogger\<close> serialises rows of variants into comma-separated
  lines and appends them to a lazily opened file, or sends them to the debug console.
  The embedding follows \<open>CSVLogger.cpp\<close> member function by member function. What the
  functions do to their surroundings is made explicit: the object's members, the
  contents of the files on disk and the chronological list of everything the object
  emitted (messages, signals, file-system requests) are fields of one state record, and
  every member function maps a state to the next one.
\<close>

subsection \<open>Values of the Qt library that the logger handles\<close>

text \<open>
  A \<open>double\<close> is a sign, a mantissa and a binary exponent (the value is
  \<open>\<plusminus> m * 2^e\<close>), or an infinity, or not a number. Every IEEE double is of this form.
\<close>

datatype qreal = Finite bool nat int | Infinite bool | NaN

text \<open>
  The variants of a row that the embedding tells apart, by their \<open>QVariant::type()\<close>:
  \<open>Double\<close>, \<open>Int\<close>, \<open>String\<close> and \<open>Bool\<close>. The source asks of a variant
  only whether its type is \<open>Double\<close>.
\<close>

datatype QVariant = VDouble qreal | VInt int | VString string | VBool bool

text \<open>The wall-clock reading \<open>QDateTime::currentDateTime()\<close> that a call observes.\<close>

record QDateTime =
  year :: nat
  month :: nat
  day :: nat
  hour :: nat
  minute :: nat
  second :: nat
  msec :: nat

datatype signal = FilenameChanged | LogTimeChanged | HeaderChanged

text \<open>
  Everything the object sends out, in the order it happens: the three message classes
  of \<open>qDebug()\<close>, \<open>qWarning()\<close> and \<open>qCritical()\<close>, the signals, and the requests
  to the platform (permission requests, \<open>mkpath\<close>, and each attempt to open a file
  together with its outcome).
\<close>

datatype event =
    QDebug string
  | QWarning string
  | QCritical string
  | Emit signal
  | AndroidSyncPermission string
  | Mkpath string
  | OpenFile string bool

text \<open>
  What the platform answers, given to every call of \<open>log\<close>: the writable base directory
  (\<open>QStandardPaths::writableLocation\<close> of the application data on Windows and of the
  documents elsewhere), \<open>QDir::isAbsolute\<close>, \<open>QFileInfo::absolutePath\<close>, whether
  opening a path for appending succeeds, and the error text of a failed open.
\<close>

record platform =
  writableLocation :: string
  isAbsolute :: "string \<Rightarrow> bool"
  absolutePath :: "string \<Rightarrow> string"
  openable :: "string \<Rightarrow> bool"
  errorString :: "string \<Rightarrow> string"

subsection \<open>The state\<close>

text \<open>
  The members of the class (\<open>enabled\<close> is the \<open>isEnabled()\<close> flag inherited from
  \<open>QQuickItem\<close>; \<open>file_name\<close> and \<open>file_isOpen\<close> are the member \<open>QFile file\<close>;
  \<open>wbuf\<close> is what the member \<open>QTextStream writer\<close> holds and has not flushed yet),
  followed by the surroundings: \<open>disk\<close> maps a path to the contents of the file
  there (as the text written, whatever its encoding in bytes), \<open>trace\<close> lists the
  events emitted so far.
\<close>

record CSVLogger =
  timestampHeader :: string
  logTime :: bool
  logMillis :: bool
  toConsole :: bool
  precision :: int
  filename :: string
  header :: "string list"
  fileNeedsReopen :: bool
  writing :: bool
  enabled :: bool
  file_name :: string
  file_isOpen :: bool
  wbuf :: string
  disk :: "string \<rightharpoonup> string"
  trace :: "event list"

definition emit :: "event \<Rightarrow> CSVLogger \<Rightarrow> CSVLogger" where
  "emit e s = s\<lparr>trace := trace s @ [e]\<rparr>"

text \<open>The events a step added: those of the later state beyond the earlier one's.\<close>

definition new_events :: "CSVLogger \<Rightarrow> CSVLogger \<Rightarrow> event list" where
  "new_events s s' = drop (length (trace s)) (trace s')"

definition newline :: string where
  "newline = [CHR 0x0A]"

subsection \<open>Rendering numbers and times\<close>

text \<open>The character of a digit below ten, and the test that a character is one.\<close>

definition digit :: "nat \<Rightarrow> char" where
  "digit d = ''0123456789'' ! d"

definition is_digit :: "char \<Rightarrow> bool" where
  "is_digit c \<longleftrightarrow> c \<in> set ''0123456789''"

fun dec :: "nat \<Rightarrow> string" where
  "dec n = (if n < 10 then [digit n] else dec (n div 10) @ [digit (n mod 10)])"

declare dec.simps [simp del]

definition pad0 :: "nat \<Rightarrow> string \<Rightarrow> string" where
  "pad0 w ds = replicate (w - length ds) (CHR ''0'') @ ds"

text \<open>
  \<open>QString::number(x, 'f', prec)\<close> of the Qt library: the decimal expansion of \<open>x\<close>
  with \<open>prec\<close> digits after the point, rounded from the exact binary value (a tie
  goes away from zero), no point when \<open>prec\<close> is 0, the sign of the double in front;
  a negative \<open>prec\<close> stands for 6; the non-finite values print as \<open>inf\<close>, \<open>-inf\<close>
  and \<open>nan\<close>. \<open>scaled m e p\<close> is \<open>m * 2^e * 10^p\<close> rounded to a natural number.
  The properties proved below are about finite doubles and a \<open>prec\<close> that is not
  negative, and none depends on which way a tie goes.
\<close>

definition scaled :: "nat \<Rightarrow> int \<Rightarrow> nat \<Rightarrow> nat" where
  "scaled m e p =
     (if 0 \<le> e then m * 2 ^ nat e * 10 ^ p
      else (2 * m * 10 ^ p + 2 ^ nat (- e)) div (2 * 2 ^ nat (- e)))"

definition QString_number_f :: "qreal \<Rightarrow> int \<Rightarrow> string" where
  "QString_number_f x prec =
     (case x of
        NaN \<Rightarrow> ''nan''
      | Infinite neg \<Rightarrow> (if neg then ''-inf'' else ''inf'')
      | Finite neg m e \<Rightarrow>
          (let p = (if prec < 0 then 6 else nat prec);
               n = scaled m e p
           in (if neg then ''-'' else '''') @ dec (n div 10 ^ p) @
              (if p = 0 then '''' else ''.'' @ pad0 p (dec (n mod 10 ^ p)))))"

text \<open>
  \<open>QVariant::toString()\<close> on the variants that reach it. The source never calls it on
  a \<open>Double\<close>, and the function is left unspecified there.
\<close>

fun QVariant_toString :: "QVariant \<Rightarrow> string" where
  "QVariant_toString (VString t) = t"
| "QVariant_toString (VInt i) = (if i < 0 then ''-'' @ dec (nat (- i)) else dec (nat i))"
| "QVariant_toString (VBool b) = (if b then ''true'' else ''false'')"

text \<open>
  \<open>QDateTime::toString\<close> with the two formats of the source,
  \<open>yyyy-MM-dd HH:mm:ss\<close> and \<open>yyyy-MM-dd HH:mm:ss.zzz\<close>: each field in decimal,
  filled with zeros on the left to its width.
\<close>

definition toString_secs :: "QDateTime \<Rightarrow> string" where
  "toString_secs t =
     pad0 4 (dec (year t)) @ ''-'' @ pad0 2 (dec (month t)) @ ''-'' @ pad0 2 (dec (day t)) @
     '' '' @ pad0 2 (dec (hour t)) @ '':'' @ pad0 2 (dec (minute t)) @ '':'' @
     pad0 2 (dec (second t))"

definition toString_millis :: "QDateTime \<Rightarrow> string" where
  "toString_millis t = toString_secs t @ ''.'' @ pad0 3 (dec (msec t))"

subsection \<open>The file and the text stream\<close>

definition content :: "(string \<rightharpoonup> string) \<Rightarrow> string \<Rightarrow> string" where
  "content d p = (case d p of None \<Rightarrow> [] | Some c \<Rightarrow> c)"

text \<open>\<open>writer << x\<close> appends to the stream's buffer.\<close>

definition writer_put :: "string \<Rightarrow> CSVLogger \<Rightarrow> CSVLogger" where
  "writer_put x s = s\<lparr>wbuf := wbuf s @ x\<rparr>"

text \<open>
  \<open>writer.flush()\<close>: nothing to do on an empty buffer; otherwise the buffer goes to
  the end of the file (the file is opened for appending) and is emptied. The source
  flushes after every \<open>writer << ...\<close>, while the file is open; on a file that is not
  open the buffer is kept here.
\<close>

definition writer_flush :: "CSVLogger \<Rightarrow> CSVLogger" where
  "writer_flush s =
     (if wbuf s = [] then s
      else if file_isOpen s then
        s\<lparr>disk := (disk s)(file_name s \<mapsto> content (disk s) (file_name s) @ wbuf s),
          wbuf := []\<rparr>
      else s)"

text \<open>\<open>writer.setDevice(&file)\<close> flushes what is pending, then binds the stream to the file.\<close>

definition writer_setDevice :: "CSVLogger \<Rightarrow> CSVLogger" where
  "writer_setDevice s = writer_flush s"

definition file_close :: "CSVLogger \<Rightarrow> CSVLogger" where
  "file_close s = s\<lparr>file_isOpen := False\<rparr>"

text \<open>\<open>file.setFileName(name)\<close> closes a file that is still open before renaming.\<close>

definition file_setFileName :: "string \<Rightarrow> CSVLogger \<Rightarrow> CSVLogger" where
  "file_setFileName name s = (file_close s)\<lparr>file_name := name\<rparr>"

text \<open>
  \<open>file.open(QIODevice::WriteOnly | QIODevice::Append)\<close>: refused on a file that is
  already open; otherwise the platform decides. A successful open creates the file when
  it is absent and keeps the contents it has. The attempt and its outcome are recorded.
\<close>

definition file_open :: "platform \<Rightarrow> CSVLogger \<Rightarrow> bool \<times> CSVLogger" where
  "file_open P s =
     (if file_isOpen s then (False, s)
      else if openable P (file_name s) then
        (True, emit (OpenFile (file_name s) True)
                 (s\<lparr>file_isOpen := True,
                    disk := (disk s)(file_name s \<mapsto> content (disk s) (file_name s))\<rparr>))
      else (False, emit (OpenFile (file_name s) False) s))"

text \<open>\<open>file.pos()\<close>: a file opened for appending is positioned at its end.\<close>

definition file_pos :: "CSVLogger \<Rightarrow> nat" where
  "file_pos s = length (content (disk s) (file_name s))"

subsection \<open>The member functions\<close>

text \<open>The texts of the warning and of the critical messages, as the source spells them.\<close>

definition warn_length :: string where
  "warn_length = ''CSVLogger::buildLogLine(): Data and header don't have the same length, log file will not be correct.''"

definition crit_setLogTime :: string where
  "crit_setLogTime = ''CSVLogger::setLogTime(): logTime cannot be changed while writing.''"

definition crit_setHeader :: string where
  "crit_setHeader = ''CSVLogger::setHeader(): header cannot be changed while writing.''"

definition crit_open :: string where
  "crit_open = ''CSVLogger::log(): Could not open file: ''"

definition crit_not_open :: string where
  "crit_not_open = ''CSVLogger::log(): File is not open, valid filename must be provided beforehand.''"

text \<open>
  The constructor (lines 37 to 51): the defaults of the configuration, the two session
  flags both false, and the two permission requests. The strings and the list are
  default-constructed (empty), the item is enabled, the file is not open. The argument
  is the disk the object is created on.
\<close>

definition CSVLogger_new :: "(string \<rightharpoonup> string) \<Rightarrow> CSVLogger" where
  "CSVLogger_new d =
     \<lparr>timestampHeader = ''timestamp'',
      logTime = True,
      logMillis = True,
      toConsole = False,
      precision = 2,
      filename = '''',
      header = [],
      fileNeedsReopen = False,
      writing = False,
      enabled = True,
      file_name = '''',
      file_isOpen = False,
      wbuf = '''',
      disk = d,
      trace = [AndroidSyncPermission ''android.permission.WRITE_EXTERNAL_STORAGE'',
               AndroidSyncPermission ''android.permission.READ_EXTERNAL_STORAGE'']\<rparr>"

text \<open>\<open>close()\<close> (lines 57 to 62). The destructor (lines 53 to 55) does the same.\<close>

definition close :: "CSVLogger \<Rightarrow> CSVLogger" where
  "close s =
     (let s1 = writer_flush s;
          s2 = file_close s1
      in s2\<lparr>fileNeedsReopen := True, writing := False\<rparr>)"

text \<open>
  The expression of lines 82 and 86 that renders one datum: only a variant whose type is
  \<open>Double\<close> goes through \<open>QString::number\<close>, every other one through \<open>toString\<close>.
\<close>

definition render :: "int \<Rightarrow> QVariant \<Rightarrow> string" where
  "render prec datum =
     (case datum of
        VDouble x \<Rightarrow> QString_number_f x prec
      | _ \<Rightarrow> QVariant_toString datum)"

text \<open>The loop of lines 84 to 87, from index \<open>i\<close> on.\<close>

function buildLogLine_loop :: "int \<Rightarrow> QVariant list \<Rightarrow> nat \<Rightarrow> string \<Rightarrow> string" where
  "buildLogLine_loop prec data i line =
     (if i < length data
      then buildLogLine_loop prec data (i + 1) (line @ '', '' @ render prec (data ! i))
      else line)"
  by pat_completeness auto
termination
  by (relation "measure (\<lambda>(prec, data, i, line). length data - i)") auto

declare buildLogLine_loop.simps [simp del]

text \<open>
  \<open>buildLogLine\<close> (lines 64 to 90): the line, and the state after the warning that a
  row of another length than the header causes. \<open>now\<close> is the clock reading.
\<close>

definition buildLogLine :: "QDateTime \<Rightarrow> QVariant list \<Rightarrow> CSVLogger \<Rightarrow> string \<times> CSVLogger" where
  "buildLogLine now data s =
     (let line0 = '''';
          line1 = (if logTime s
                   then (if logMillis s then line0 @ toString_millis now
                         else line0 @ toString_secs now)
                   else line0);
          s1 = (if length data \<noteq> length (header s)
                then emit (QWarning warn_length) s
                else s);
          line2 = (if length data > 0
                   then (if logTime s then line1 @ '', '' else line1) @
                        render (precision s) (data ! 0)
                   else line1)
      in (buildLogLine_loop (precision s) data 1 line2, s1))"

text \<open>The loop of lines 101 and 102, and \<open>buildHeaderString\<close> (lines 92 to 104).\<close>

function buildHeaderString_loop :: "string list \<Rightarrow> nat \<Rightarrow> string \<Rightarrow> string" where
  "buildHeaderString_loop hdr i headerString =
     (if i < length hdr
      then buildHeaderString_loop hdr (i + 1) (headerString @ '', '' @ hdr ! i)
      else headerString)"
  by pat_completeness auto
termination
  by (relation "measure (\<lambda>(hdr, i, headerString). length hdr - i)") auto

declare buildHeaderString_loop.simps [simp del]

definition buildHeaderString :: "CSVLogger \<Rightarrow> string" where
  "buildHeaderString s =
     (let h0 = '''';
          h1 = (if logTime s then h0 @ timestampHeader s else h0);
          h2 = (if length (header s) > 0
                then (if logTime s then h1 @ '', '' else h1) @ header s ! 0
                else h1)
      in buildHeaderString_loop (header s) 1 h2)"

text \<open>\<open>setFilename\<close> (lines 106 to 118).\<close>

definition setFilename :: "string \<Rightarrow> CSVLogger \<Rightarrow> CSVLogger" where
  "setFilename name s =
     (if filename s \<noteq> name then
        (let s1 = writer_flush s;
             s2 = file_close s1;
             s3 = s2\<lparr>filename := name\<rparr>;
             s4 = s3\<lparr>fileNeedsReopen := True, writing := False\<rparr>
         in emit (Emit FilenameChanged) s4)
      else s)"

text \<open>\<open>setLogTime\<close> (lines 120 to 129).\<close>

definition setLogTime :: "bool \<Rightarrow> CSVLogger \<Rightarrow> CSVLogger" where
  "setLogTime b s =
     (if logTime s \<noteq> b then
        (if writing s
         then emit (QCritical crit_setLogTime) s
         else emit (Emit LogTimeChanged) (s\<lparr>logTime := b\<rparr>))
      else s)"

text \<open>\<open>setHeader\<close> (lines 131 to 140).\<close>

definition setHeader :: "string list \<Rightarrow> CSVLogger \<Rightarrow> CSVLogger" where
  "setHeader h s =
     (if header s \<noteq> h then
        (if writing s
         then emit (QCritical crit_setHeader) s
         else emit (Emit HeaderChanged) (s\<lparr>header := h\<rparr>))
      else s)"

text \<open>
  The block of \<open>log\<close> that reopens the file (lines 153 to 184). \<open>Inl\<close> is the early
  return of line 172, \<open>Inr\<close> the state with which \<open>log\<close> goes on.
\<close>

definition log_reopen :: "platform \<Rightarrow> CSVLogger \<Rightarrow> CSVLogger + CSVLogger" where
  "log_reopen P s =
     (let s1 = (if isAbsolute P (filename s)
                then emit (QDebug (''CSVLogger::log(): Opening '' @ filename s @ '' to log.'')) s
                else (let a = s\<lparr>filename := writableLocation P @ ''/'' @ filename s\<rparr>;
                          b = emit (QDebug (''CSVLogger::log(): Absolute path not given, opening '' @
                                            filename a @ '' to log.'')) a
                      in emit (Emit FilenameChanged) b));
          s2 = emit (Mkpath (absolutePath P (filename s1))) s1;
          s3 = file_setFileName (filename s2) s2;
          (ok, s4) = file_open P s3
      in if \<not> ok then
           Inl (emit (QCritical (crit_open @ errorString P (file_name s4))) s4)
         else
           (let s5 = writer_setDevice s4;
                s6 = s5\<lparr>fileNeedsReopen := False, writing := True\<rparr>
            in Inr (if file_pos s6 = 0
                    then writer_flush (writer_put newline (writer_put (buildHeaderString s6) s6))
                    else s6)))"

text \<open>\<open>log\<close> (lines 142 to 194), called when the clock reads \<open>now\<close>.\<close>

definition log :: "platform \<Rightarrow> QDateTime \<Rightarrow> QVariant list \<Rightarrow> CSVLogger \<Rightarrow> CSVLogger" where
  "log P now data s =
     (if \<not> enabled s then s
      else if toConsole s then
        (let (line, s1) = buildLogLine now data s in emit (QDebug line) s1)
      else
        (case (if fileNeedsReopen s then log_reopen P s else Inr s) of
           Inl s1 \<Rightarrow> s1
         | Inr s1 \<Rightarrow>
             (if file_isOpen s1 then
                (let (line, s2) = buildLogLine now data s1
                 in writer_flush (writer_put newline (writer_put line s2)))
              else emit (QCritical crit_not_open) s1)))"

text \<open>A sequence of \<open>log\<close> calls, each with its clock reading and its row.\<close>

fun logs :: "platform \<Rightarrow> (QDateTime \<times> QVariant list) list \<Rightarrow> CSVLogger \<Rightarrow> CSVLogger" where
  "logs P [] s = s"
| "logs P ((now, data) # calls) s = logs P calls (log P now data s)"

subsection \<open>Notions used to state the properties\<close>

text \<open>The path that \<open>log\<close> opens for the file name it finds.\<close>

definition resolve :: "platform \<Rightarrow> string \<Rightarrow> string" where
  "resolve P name = (if isAbsolute P name then name else writableLocation P @ ''/'' @ name)"

text \<open>
  A fixed-point decimal string with exactly \<open>p\<close> fractional digits: an optional minus
  sign, at least one digit, and then, unless \<open>p\<close> is 0, a point and \<open>p\<close> digits.
\<close>

definition is_fixed :: "nat \<Rightarrow> string \<Rightarrow> bool" where
  "is_fixed p t =
     (let body = (case t of [] \<Rightarrow> [] | c # cs \<Rightarrow> if c = CHR ''-'' then cs else t);
          ip = takeWhile is_digit body;
          rest = dropWhile is_digit body
      in ip \<noteq> [] \<and>
         (if p = 0 then rest = []
          else (case rest of
                  [] \<Rightarrow> False
                | c # fp \<Rightarrow> c = CHR ''.'' \<and> length fp = p \<and> list_all is_digit fp)))"

text \<open>Strings joined by comma and space.\<close>

fun join :: "string list \<Rightarrow> string" where
  "join [] = ''''"
| "join [x] = x"
| "join (x # y # ys) = x @ '', '' @ join (y # ys)"

text \<open>
  The line builder in the words of the specification: the time stamp, when the time is
  logged, and then the rendered values, all joined by comma and space; and likewise the
  header line from the label of the time column and the column names.
\<close>

definition data_line :: "bool \<Rightarrow> bool \<Rightarrow> int \<Rightarrow> QDateTime \<Rightarrow> QVariant list \<Rightarrow> string" where
  "data_line lt lm prec now data =
     join ((if lt then [if lm then toString_millis now else toString_secs now] else []) @
           map (render prec) data)"

definition header_line :: "bool \<Rightarrow> string \<Rightarrow> string list \<Rightarrow> string" where
  "header_line lt label hdr = join ((if lt then [label] else []) @ hdr)"

text \<open>A plausible clock reading: every field of the time within its range.\<close>

definition valid_time :: "QDateTime \<Rightarrow> bool" where
  "valid_time t \<longleftrightarrow>
     year t < 10000 \<and> 1 \<le> month t \<and> month t \<le> 12 \<and> 1 \<le> day t \<and> day t \<le> 31 \<and>
     hour t < 24 \<and> minute t < 60 \<and> second t < 60 \<and> msec t < 1000"

text \<open>
  The form \<open>YYYY-MM-DD HH:MM:SS\<close>: nineteen characters, digits everywhere but at the
  two dashes, the blank and the two colons.
\<close>

definition is_timestamp :: "string \<Rightarrow> bool" where
  "is_timestamp t \<longleftrightarrow>
     length t = 19 \<and>
     list_all is_digit (take 4 t) \<and> t ! 4 = CHR ''-'' \<and>
     list_all is_digit (take 2 (drop 5 t)) \<and> t ! 7 = CHR ''-'' \<and>
     list_all is_digit (take 2 (drop 8 t)) \<and> t ! 10 = CHR '' '' \<and>
     list_all is_digit (take 2 (drop 11 t)) \<and> t ! 13 = CHR '':'' \<and>
     list_all is_digit (take 2 (drop 14 t)) \<and> t ! 16 = CHR '':'' \<and>
     list_all is_digit (take 2 (drop 17 t))"

text \<open>
  Example surroundings: a platform on which a path is absolute when it begins with a
  slash, the directory of a path is what precedes its last slash, and opening succeeds
  on every path except the listed ones.
\<close>

definition unix :: "string list \<Rightarrow> platform" where
  "unix denied =
     \<lparr>writableLocation = ''/home/u/Documents'',
      isAbsolute = (\<lambda>p. p \<noteq> [] \<and> hd p = CHR ''/''),
      absolutePath = (\<lambda>p. rev (tl (dropWhile (\<lambda>c. c \<noteq> CHR ''/'') (rev p)))),
      openable = (\<lambda>p. p \<notin> set denied),
      errorString = (\<lambda>p. ''Permission denied'')\<rparr>"

definition noon :: QDateTime where
  "noon = \<lparr>year = 2016, month = 6, day = 15, hour = 12, minute = 0, second = 7, msec = 42\<rparr>"

text \<open>The double nearest to 3.14159, which is \<open>7074231776675438 * 2^-51\<close>.\<close>

definition pi5 :: qreal where
  "pi5 = Finite False 7074231776675438 (- 51)"

text \<open>
  An example session: a fresh object on an empty disk, given an absolute file name;
  and the same after one row has been logged to the file.
\<close>

definition named_session :: CSVLogger where
  "named_session = setFilename ''/x.csv'' (CSVLogger_new Map.empty)"

definition writing_session :: CSVLogger where
  "writing_session = log (unix []) noon [VInt 3] named_session"

text \<open>
  What the reopening block of \<open>log\<close> emits before it tries to open the file, for the
  file name it finds.
\<close>

definition reopen_events :: "platform \<Rightarrow> string \<Rightarrow> event list" where
  "reopen_events P name =
     (if isAbsolute P name
      then [QDebug (''CSVLogger::log(): Opening '' @ name @ '' to log.'')]
      else [QDebug (''CSVLogger::log(): Absolute path not given, opening '' @
                    resolve P name @ '' to log.''),
            Emit FilenameChanged]) @
     [Mkpath (absolutePath P (resolve P name))]"

text \<open>
  The state in which \<open>log\<close> leaves its reopening block, by the early return or not.
\<close>

definition after_reopen :: "platform \<Rightarrow> CSVLogger \<Rightarrow> CSVLogger" where
  "after_reopen P s = (case log_reopen P s of Inl s1 \<Rightarrow> s1 | Inr s1 \<Rightarrow> s1)"

text \<open>
  What holds of the session between any two calls: the stream holds nothing unflushed,
  a session that needs reopening is not writing and has no open file, and a writing
  session has its file open.
\<close>

definition session_inv :: "CSVLogger \<Rightarrow> bool" where
  "session_inv s \<longleftrightarrow>
     wbuf s = [] \<and>
     (fileNeedsReopen s \<longrightarrow> \<not> writing s \<and> \<not> file_isOpen s) \<and>
     (writing s \<longrightarrow> file_isOpen s)"

subsection \<open>Facts about the rendering of numbers\<close>

lemma digit_is_digit: "d < 10 \<Longrightarrow> is_digit (digit d)"
  unfolding is_digit_def digit_def by (rule nth_mem) simp

lemma dec_digits: "list_all is_digit (dec n)"
proof (induction n rule: dec.induct)
  case (1 n)
  show ?case
  proof (cases "n < 10")
    case True
    then show ?thesis by (subst dec.simps) (simp add: digit_is_digit)
  next
    case False
    with 1 show ?thesis by (subst dec.simps) (simp add: digit_is_digit)
  qed
qed

lemma dec_nonempty: "dec n \<noteq> []"
  by (subst dec.simps) simp

lemma length_dec: "0 < p \<Longrightarrow> n < 10 ^ p \<Longrightarrow> length (dec n) \<le> p"
proof (induction n arbitrary: p rule: dec.induct)
  case (1 n)
  show ?case
  proof (cases "n < 10")
    case True
    with 1 show ?thesis by (subst dec.simps) simp
  next
    case False
    obtain q where q: "p = Suc q" using 1(2) by (cases p) auto
    have "q \<noteq> 0" using False 1(3) q by (cases q) auto
    moreover have "n div 10 < 10 ^ q" using 1(3) q by (simp add: less_mult_imp_div_less)
    ultimately have "length (dec (n div 10)) \<le> q" using 1(1)[OF False, of q] by simp
    then show ?thesis using q False by (subst dec.simps) simp
  qed
qed

lemma length_pad0: "length ds \<le> w \<Longrightarrow> length (pad0 w ds) = w"
  by (simp add: pad0_def)

lemma zero_is_digit: "is_digit (CHR ''0'')"
  by (simp add: is_digit_def)

lemma pad0_digits: "list_all is_digit ds \<Longrightarrow> list_all is_digit (pad0 w ds)"
  by (auto simp: pad0_def list_all_iff zero_is_digit)

lemma takeWhile_digits: "list_all is_digit ds \<Longrightarrow> \<not> is_digit c \<Longrightarrow> takeWhile is_digit (ds @ c # r) = ds"
  by (induction ds) auto
lemma dropWhile_digits: "list_all is_digit ds \<Longrightarrow> \<not> is_digit c \<Longrightarrow> dropWhile is_digit (ds @ c # r) = c # r"
  by (induction ds) auto
lemma takeWhile_all: "list_all is_digit ds \<Longrightarrow> takeWhile is_digit ds = ds"
  by (induction ds) auto
lemma dropWhile_all: "list_all is_digit ds \<Longrightarrow> dropWhile is_digit ds = []"
  by (induction ds) auto

lemma point_not_digit: "\<not> is_digit (CHR ''.'')"
  by (simp add: is_digit_def)

lemma minus_not_digit: "\<not> is_digit (CHR ''-'')"
  by (simp add: is_digit_def)

lemma is_fixed_unsigned:
  assumes "list_all is_digit ip" "ip \<noteq> []" "list_all is_digit fp" "length fp = p"
  shows "is_fixed p (ip @ (if p = 0 then [] else CHR ''.'' # fp))"
proof -
  have hd: "hd ip \<noteq> CHR ''-''" using assms(1,2) minus_not_digit by (cases ip) auto
  show ?thesis
  proof (cases "p = 0")
    case True
    then show ?thesis using assms hd
      by (cases ip) (auto simp: is_fixed_def list_all_iff)
  next
    case False
    then show ?thesis using assms hd
      by (cases ip) (auto simp: is_fixed_def point_not_digit takeWhile_digits dropWhile_digits)
  qed
qed

lemma is_fixed_signed:
  assumes "list_all is_digit ip" "ip \<noteq> []" "list_all is_digit fp" "length fp = p"
  shows "is_fixed p (CHR ''-'' # ip @ (if p = 0 then [] else CHR ''.'' # fp))"
  using assms
  by (auto simp: is_fixed_def takeWhile_digits dropWhile_digits point_not_digit list_all_iff)

lemma number_f_fixed:
  assumes "0 \<le> prec"
  shows "is_fixed (nat prec) (QString_number_f (Finite neg m e) prec)"
proof -
  define p where "p = nat prec"
  define n where "n = scaled m e p"
  have len: "length (pad0 p (dec (n mod 10 ^ p))) = p" if "p \<noteq> 0"
    using that by (intro length_pad0 length_dec) simp_all
  have dig: "list_all is_digit (pad0 p (dec (n mod 10 ^ p)))"
    by (intro pad0_digits dec_digits)
  have eq: "QString_number_f (Finite neg m e) prec =
    (if neg then ''-'' else '''') @ dec (n div 10 ^ p) @
      (if p = 0 then [] else CHR ''.'' # (if p = 0 then [] else pad0 p (dec (n mod 10 ^ p))))"
    using assms by (simp add: QString_number_f_def Let_def p_def n_def)
  have l2: "length (if p = 0 then [] else pad0 p (dec (n mod 10 ^ p))) = p"
    using len by simp
  have d2: "list_all is_digit (if p = 0 then [] else pad0 p (dec (n mod 10 ^ p)))"
    using dig by simp
  show ?thesis
    unfolding eq p_def[symmetric]
    using is_fixed_unsigned[OF dec_digits dec_nonempty d2 l2, of "n div 10 ^ p"]
      is_fixed_signed[OF dec_digits dec_nonempty d2 l2, of "n div 10 ^ p"]
    by (cases neg) simp_all
qed

subsection \<open>The line builder computes the joined line\<close>

lemma join_Cons: "join (x # xs) = x @ concat (map (\<lambda>y. '', '' @ y) xs)"
  by (induction xs arbitrary: x) auto

lemma buildLogLine_loop_eq:
  "buildLogLine_loop prec data i line =
     line @ concat (map (\<lambda>d. '', '' @ render prec d) (drop i data))"
proof (induction prec data i line rule: buildLogLine_loop.induct)
  case (1 prec data i line)
  show ?case
  proof (cases "i < length data")
    case True
    then have "drop i data = data ! i # drop (Suc i) data"
      by (simp add: Cons_nth_drop_Suc)
    with True 1 show ?thesis
      by (subst buildLogLine_loop.simps) simp
  next
    case False
    then show ?thesis
      by (subst buildLogLine_loop.simps) simp
  qed
qed

lemma buildHeaderString_loop_eq:
  "buildHeaderString_loop hdr i acc = acc @ concat (map (\<lambda>h. '', '' @ h) (drop i hdr))"
proof (induction hdr i acc rule: buildHeaderString_loop.induct)
  case (1 hdr i acc)
  show ?case
  proof (cases "i < length hdr")
    case True
    then have "drop i hdr = hdr ! i # drop (Suc i) hdr"
      by (simp add: Cons_nth_drop_Suc)
    moreover have "((@) '', '') = (\<lambda>h. CHR '','' # CHR '' '' # h)"
      by (simp add: fun_eq_iff)
    ultimately show ?thesis
      using True 1 by (subst buildHeaderString_loop.simps) simp
  next
    case False
    then show ?thesis
      by (subst buildHeaderString_loop.simps) simp
  qed
qed

lemma buildLogLine_line:
  "fst (buildLogLine now data s) = data_line (logTime s) (logMillis s) (precision s) now data"
proof (cases data)
  case Nil
  then show ?thesis
    by (simp add: buildLogLine_def data_line_def buildLogLine_loop_eq)
next
  case (Cons d ds)
  then show ?thesis
    by (simp add: buildLogLine_def data_line_def buildLogLine_loop_eq join_Cons comp_def)
qed

lemma buildLogLine_state:
  "snd (buildLogLine now data s) =
     (if length data \<noteq> length (header s) then emit (QWarning warn_length) s else s)"
  by (simp add: buildLogLine_def Let_def)

lemma buildHeaderString_line:
  "buildHeaderString s = header_line (logTime s) (timestampHeader s) (header s)"
proof (cases "header s")
  case Nil
  then show ?thesis
    by (simp add: buildHeaderString_def header_line_def buildHeaderString_loop_eq)
next
  case (Cons h hs)
  then show ?thesis
    by (simp add: buildHeaderString_def header_line_def buildHeaderString_loop_eq join_Cons)
qed

subsection \<open>The time stamp\<close>

lemma two_digits:
  assumes "n < 100"
  shows "\<exists>a b. pad0 2 (dec n) = [a, b] \<and> is_digit a \<and> is_digit b"
proof -
  have "length (pad0 2 (dec n)) = 2"
    using assms by (intro length_pad0 length_dec) simp_all
  moreover have "list_all is_digit (pad0 2 (dec n))"
    by (intro pad0_digits dec_digits)
  ultimately show ?thesis
    by (auto simp: length_Suc_conv numeral_2_eq_2)
qed

lemma four_digits:
  assumes "n < 10000"
  shows "\<exists>a b c d. pad0 4 (dec n) = [a, b, c, d] \<and> is_digit a \<and> is_digit b \<and> is_digit c \<and> is_digit d"
proof -
  have "length (pad0 4 (dec n)) = 4"
    using assms by (intro length_pad0 length_dec) simp_all
  moreover have "list_all is_digit (pad0 4 (dec n))"
    by (intro pad0_digits dec_digits)
  ultimately show ?thesis
    by (auto simp: length_Suc_conv eval_nat_numeral)
qed

lemma toString_secs_form:
  assumes "valid_time t"
  shows "is_timestamp (toString_secs t)"
proof -
  obtain y1 y2 y3 y4 where y: "pad0 4 (dec (year t)) = [y1, y2, y3, y4]"
    "is_digit y1" "is_digit y2" "is_digit y3" "is_digit y4"
    using four_digits[of "year t"] assms by (auto simp: valid_time_def)
  obtain m1 m2 where m: "pad0 2 (dec (month t)) = [m1, m2]" "is_digit m1" "is_digit m2"
    using two_digits[of "month t"] assms by (auto simp: valid_time_def)
  obtain d1 d2 where d: "pad0 2 (dec (day t)) = [d1, d2]" "is_digit d1" "is_digit d2"
    using two_digits[of "day t"] assms by (auto simp: valid_time_def)
  obtain h1 h2 where h: "pad0 2 (dec (hour t)) = [h1, h2]" "is_digit h1" "is_digit h2"
    using two_digits[of "hour t"] assms by (auto simp: valid_time_def)
  obtain n1 n2 where n: "pad0 2 (dec (minute t)) = [n1, n2]" "is_digit n1" "is_digit n2"
    using two_digits[of "minute t"] assms by (auto simp: valid_time_def)
  obtain s1 s2 where s: "pad0 2 (dec (second t)) = [s1, s2]" "is_digit s1" "is_digit s2"
    using two_digits[of "second t"] assms by (auto simp: valid_time_def)
  have "toString_secs t =
    [y1, y2, y3, y4, CHR ''-'', m1, m2, CHR ''-'', d1, d2, CHR '' '',
     h1, h2, CHR '':'', n1, n2, CHR '':'', s1, s2]"
    by (simp add: toString_secs_def y m d h n s)
  then show ?thesis
    using y m d h n s by (simp add: is_timestamp_def)
qed

subsection \<open>What one call of \<open>log\<close> does, case by case\<close>

lemma buildLogLine_eq:
  "buildLogLine now data s =
     (data_line (logTime s) (logMillis s) (precision s) now data,
      if length data \<noteq> length (header s) then emit (QWarning warn_length) s else s)"
  using buildLogLine_line[of now data s] buildLogLine_state[of now data s]
  by (cases "buildLogLine now data s") simp

lemma log_disabled: "\<not> enabled s \<Longrightarrow> log P now data s = s"
  by (simp add: log_def)

lemma log_console:
  assumes "enabled s" "toConsole s"
  shows "log P now data s =
    s\<lparr>trace := trace s @
        (if length data \<noteq> length (header s) then [QWarning warn_length] else []) @
        [QDebug (data_line (logTime s) (logMillis s) (precision s) now data)]\<rparr>"
  using assms by (simp add: log_def buildLogLine_eq emit_def)

lemma log_closed:
  assumes "enabled s" "\<not> toConsole s" "\<not> fileNeedsReopen s" "\<not> file_isOpen s"
  shows "log P now data s = emit (QCritical crit_not_open) s"
  using assms by (simp add: log_def)

lemma log_open:
  assumes "enabled s" "\<not> toConsole s" "\<not> fileNeedsReopen s" "file_isOpen s" "wbuf s = []"
  shows "log P now data s =
    s\<lparr>trace := trace s @ (if length data \<noteq> length (header s) then [QWarning warn_length] else []),
      disk := (disk s)(file_name s \<mapsto> content (disk s) (file_name s) @
                data_line (logTime s) (logMillis s) (precision s) now data @ newline)\<rparr>"
  using assms
  by (simp add: log_def buildLogLine_eq emit_def writer_flush_def writer_put_def newline_def)

text \<open>The reopening block, step by step.\<close>

lemma file_open_ok:
  assumes "\<not> file_isOpen s" "openable P (file_name s)"
  shows "file_open P s =
    (True, s\<lparr>file_isOpen := True,
             disk := (disk s)(file_name s \<mapsto> content (disk s) (file_name s)),
             trace := trace s @ [OpenFile (file_name s) True]\<rparr>)"
  using assms by (simp add: file_open_def emit_def)

lemma file_open_fail:
  assumes "\<not> file_isOpen s" "\<not> openable P (file_name s)"
  shows "file_open P s = (False, s\<lparr>trace := trace s @ [OpenFile (file_name s) False]\<rparr>)"
  using assms by (simp add: file_open_def emit_def)

lemma content_upd: "content (d(p \<mapsto> c)) p = c"
  by (simp add: content_def)

lemma header_flush:
  assumes "file_isOpen s" "wbuf s = []"
  shows "writer_flush (writer_put newline (writer_put h s)) =
    s\<lparr>disk := (disk s)(file_name s \<mapsto> content (disk s) (file_name s) @ h @ newline)\<rparr>"
  using assms by (simp add: writer_flush_def writer_put_def newline_def)

lemma log_reopen_unfold:
  "log_reopen P s =
    (let s3 = s\<lparr>filename := resolve P (filename s),
                trace := trace s @ reopen_events P (filename s),
                file_isOpen := False,
                file_name := resolve P (filename s)\<rparr>
     in case file_open P s3 of
          (ok, s4) \<Rightarrow>
            if \<not> ok then Inl (emit (QCritical (crit_open @ errorString P (file_name s4))) s4)
            else
             (let s5 = writer_setDevice s4;
                  s6 = s5\<lparr>fileNeedsReopen := False, writing := True\<rparr>
              in Inr (if file_pos s6 = 0
                      then writer_flush (writer_put newline (writer_put (buildHeaderString s6) s6))
                      else s6)))"
proof (cases "isAbsolute P (filename s)")
  case True
  then show ?thesis
    unfolding log_reopen_def Let_def
    by (simp add: resolve_def reopen_events_def emit_def file_setFileName_def file_close_def)
next
  case False
  then show ?thesis
    unfolding log_reopen_def Let_def
    by (simp add: resolve_def reopen_events_def emit_def file_setFileName_def file_close_def)
qed

lemma writer_flush_empty: "wbuf s = [] \<Longrightarrow> writer_flush s = s"
  by (simp add: writer_flush_def)

lemma log_reopen_failure:
  assumes "\<not> openable P (resolve P (filename s))"
  shows "log_reopen P s =
    Inl (s\<lparr>filename := resolve P (filename s),
           trace := trace s @ reopen_events P (filename s) @
             [OpenFile (resolve P (filename s)) False,
              QCritical (crit_open @ errorString P (resolve P (filename s)))],
           file_isOpen := False,
           file_name := resolve P (filename s)\<rparr>)"
  using assms by (simp add: log_reopen_unfold file_open_fail emit_def)

lemma log_reopen_success:
  assumes "openable P (resolve P (filename s))" "wbuf s = []"
  shows "log_reopen P s =
    Inr (s\<lparr>filename := resolve P (filename s),
           fileNeedsReopen := False,
           writing := True,
           file_name := resolve P (filename s),
           file_isOpen := True,
           disk := (disk s)(resolve P (filename s) \<mapsto>
                     content (disk s) (resolve P (filename s)) @
                     (if content (disk s) (resolve P (filename s)) = []
                      then header_line (logTime s) (timestampHeader s) (header s) @ newline
                      else [])),
           trace := trace s @ reopen_events P (filename s) @
             [OpenFile (resolve P (filename s)) True]\<rparr>)"
proof (cases "content (disk s) (resolve P (filename s)) = []")
  case True
  then show ?thesis using assms
    by (simp add: log_reopen_unfold file_open_ok writer_setDevice_def writer_flush_empty
        file_pos_def content_upd header_flush buildHeaderString_line Let_def)
next
  case False
  then show ?thesis using assms
    by (simp add: log_reopen_unfold file_open_ok writer_setDevice_def writer_flush_empty
        file_pos_def content_upd Let_def)
qed

subsection \<open>The text stream leaves the rest of the object alone\<close>

lemma writer_flush_fields [simp]:
  "trace (writer_flush s) = trace s"
  "filename (writer_flush s) = filename s"
  "file_name (writer_flush s) = file_name s"
  "file_isOpen (writer_flush s) = file_isOpen s"
  "fileNeedsReopen (writer_flush s) = fileNeedsReopen s"
  "writing (writer_flush s) = writing s"
  "enabled (writer_flush s) = enabled s"
  "toConsole (writer_flush s) = toConsole s"
  "header (writer_flush s) = header s"
  "logTime (writer_flush s) = logTime s"
  "logMillis (writer_flush s) = logMillis s"
  "precision (writer_flush s) = precision s"
  "timestampHeader (writer_flush s) = timestampHeader s"
  by (simp_all add: writer_flush_def)

lemma writer_put_fields [simp]:
  "trace (writer_put x s) = trace s"
  "filename (writer_put x s) = filename s"
  "file_name (writer_put x s) = file_name s"
  "file_isOpen (writer_put x s) = file_isOpen s"
  "fileNeedsReopen (writer_put x s) = fileNeedsReopen s"
  "writing (writer_put x s) = writing s"
  "enabled (writer_put x s) = enabled s"
  "toConsole (writer_put x s) = toConsole s"
  "header (writer_put x s) = header s"
  "logTime (writer_put x s) = logTime s"
  "logMillis (writer_put x s) = logMillis s"
  "precision (writer_put x s) = precision s"
  "timestampHeader (writer_put x s) = timestampHeader s"
  "disk (writer_put x s) = disk s"
  by (simp_all add: writer_put_def)

lemma after_reopen_fields:
  "trace (after_reopen P s) =
     trace s @ reopen_events P (filename s) @
     [OpenFile (resolve P (filename s)) (openable P (resolve P (filename s)))] @
     (if openable P (resolve P (filename s)) then []
      else [QCritical (crit_open @ errorString P (resolve P (filename s)))])"
  "filename (after_reopen P s) = resolve P (filename s)"
  "file_isOpen (after_reopen P s) = openable P (resolve P (filename s))"
  "enabled (after_reopen P s) = enabled s"
  "header (after_reopen P s) = header s"
  by (cases "openable P (resolve P (filename s))";
      simp add: after_reopen_def log_reopen_unfold file_open_ok file_open_fail emit_def
        writer_setDevice_def Let_def)+

lemma log_reopen_isl:
  "isl (log_reopen P s) \<longleftrightarrow> \<not> openable P (resolve P (filename s))"
  by (cases "openable P (resolve P (filename s))")
    (simp_all add: log_reopen_unfold file_open_ok file_open_fail Let_def)

lemma log_needs_reopen_trace:
  assumes "enabled s" "\<not> toConsole s" "fileNeedsReopen s"
  shows "new_events s (log P now data s) =
     reopen_events P (filename s) @
     [OpenFile (resolve P (filename s)) (openable P (resolve P (filename s)))] @
     (if openable P (resolve P (filename s))
      then (if length data \<noteq> length (header s) then [QWarning warn_length] else [])
      else [QCritical (crit_open @ errorString P (resolve P (filename s)))])"
    and "filename (log P now data s) = resolve P (filename s)"
proof -
  show "new_events s (log P now data s) =
     reopen_events P (filename s) @
     [OpenFile (resolve P (filename s)) (openable P (resolve P (filename s)))] @
     (if openable P (resolve P (filename s))
      then (if length data \<noteq> length (header s) then [QWarning warn_length] else [])
      else [QCritical (crit_open @ errorString P (resolve P (filename s)))])"
    using assms after_reopen_fields[of P s]
    using log_reopen_isl[of P s]
    by (cases "log_reopen P s")
      (auto simp: log_def new_events_def after_reopen_def buildLogLine_eq emit_def)
  show "filename (log P now data s) = resolve P (filename s)"
    using assms after_reopen_fields[of P s]
    using log_reopen_isl[of P s]
    by (cases "log_reopen P s")
      (auto simp: log_def after_reopen_def buildLogLine_eq emit_def)
qed

text \<open>The whole state after a \<open>log\<close> call that finds the reopen flag set.\<close>

lemma log_open_failure:
  assumes "enabled s" "\<not> toConsole s" "fileNeedsReopen s"
    "\<not> openable P (resolve P (filename s))"
  shows "log P now data s =
    s\<lparr>filename := resolve P (filename s),
      trace := trace s @ reopen_events P (filename s) @
        [OpenFile (resolve P (filename s)) False,
         QCritical (crit_open @ errorString P (resolve P (filename s)))],
      file_isOpen := False,
      file_name := resolve P (filename s)\<rparr>"
  using assms by (simp add: log_def log_reopen_failure)

lemma log_open_success:
  assumes "enabled s" "\<not> toConsole s" "fileNeedsReopen s" "wbuf s = []"
    and "openable P (resolve P (filename s))"
  shows "log P now data s =
    s\<lparr>filename := resolve P (filename s), fileNeedsReopen := False, writing := True,
      file_name := resolve P (filename s), file_isOpen := True,
      disk := (disk s)(resolve P (filename s) \<mapsto>
                content (disk s) (resolve P (filename s)) @
                (if content (disk s) (resolve P (filename s)) = []
                 then header_line (logTime s) (timestampHeader s) (header s) @ newline
                 else []) @
                data_line (logTime s) (logMillis s) (precision s) now data @ newline),
      trace := trace s @ reopen_events P (filename s) @
               [OpenFile (resolve P (filename s)) True] @
               (if length data \<noteq> length (header s) then [QWarning warn_length] else [])\<rparr>"
  using assms
  by (simp add: log_def log_reopen_success buildLogLine_eq header_flush emit_def content_upd)

subsection \<open>The example sessions\<close>

lemma unix_simps [simp]:
  "writableLocation (unix ds) = ''/home/u/Documents''"
  "isAbsolute (unix ds) p = (p \<noteq> [] \<and> hd p = CHR ''/'')"
  "openable (unix ds) p = (p \<notin> set ds)"
  "errorString (unix ds) p = ''Permission denied''"
  by (simp_all add: unix_def)

lemma named_session_eq:
  "named_session =
     (CSVLogger_new Map.empty)\<lparr>filename := ''/x.csv'', fileNeedsReopen := True,
        trace := trace (CSVLogger_new Map.empty) @ [Emit FilenameChanged]\<rparr>"
  by (simp add: named_session_def setFilename_def CSVLogger_new_def writer_flush_def
      file_close_def emit_def)

lemma named_session_fields [simp]:
  "enabled named_session" "\<not> toConsole named_session" "fileNeedsReopen named_session"
  "\<not> writing named_session" "wbuf named_session = []" "filename named_session = ''/x.csv''"
  "logTime named_session" "logMillis named_session" "header named_session = []"
  "precision named_session = 2" "disk named_session = Map.empty"
  "timestampHeader named_session = ''timestamp''"
  by (simp_all add: named_session_eq CSVLogger_new_def)

lemma writing_session_fields [simp]:
  "enabled writing_session" "\<not> toConsole writing_session"
  "\<not> fileNeedsReopen writing_session" "writing writing_session"
  "file_isOpen writing_session" "wbuf writing_session = []"
  "logTime writing_session" "header writing_session = []"
  by (simp_all add: writing_session_def log_def log_reopen_success resolve_def
      buildLogLine_eq writer_flush_def writer_put_def emit_def newline_def)

lemma writing_session_config [simp]:
  "logMillis writing_session" "precision writing_session = 2"
  "timestampHeader writing_session = ''timestamp''" "filename writing_session = ''/x.csv''"
  by (simp_all add: writing_session_def log_def log_reopen_success resolve_def
      buildLogLine_eq writer_flush_def writer_put_def emit_def newline_def)

lemma noon_stamp: "toString_millis noon = ''2016-06-15 12:00:07.042''"
  by (simp add: toString_millis_def toString_secs_def noon_def pad0_def dec.simps digit_def)

lemma writing_session_file:
  "file_name writing_session = ''/x.csv''"
  "disk writing_session ''/x.csv'' =
     Some (''timestamp'' @ newline @ ''2016-06-15 12:00:07.042, 3'' @ newline)"
  by (simp_all add: writing_session_def log_def log_reopen_success resolve_def
      buildLogLine_eq header_flush emit_def content_def header_line_def data_line_def
      noon_stamp render_def dec.simps digit_def)

subsection \<open>The invariant of the session\<close>

text \<open>
  Several properties below assume of a state that the stream holds nothing unflushed,
  and of a session that needs reopening that it is not writing. Both hold after
  construction and after every member function, so they hold whenever a caller can make
  the next call.
\<close>

lemma session_inv_new: "session_inv (CSVLogger_new d)"
  by (simp add: session_inv_def CSVLogger_new_def)

lemma session_inv_close: "session_inv s \<Longrightarrow> session_inv (close s)"
  by (simp add: session_inv_def close_def file_close_def writer_flush_empty)

lemma session_inv_setFilename: "session_inv s \<Longrightarrow> session_inv (setFilename name s)"
  by (simp add: session_inv_def setFilename_def file_close_def writer_flush_empty emit_def)

lemma session_inv_setLogTime: "session_inv s \<Longrightarrow> session_inv (setLogTime b s)"
  by (auto simp: session_inv_def setLogTime_def emit_def)

lemma session_inv_setHeader: "session_inv s \<Longrightarrow> session_inv (setHeader h s)"
  by (auto simp: session_inv_def setHeader_def emit_def)

lemma session_inv_log:
  assumes "session_inv s"
  shows "session_inv (log P now data s)"
proof -
  consider (disabled) "\<not> enabled s"
    | (console) "enabled s" "toConsole s"
    | (closed) "enabled s" "\<not> toConsole s" "\<not> fileNeedsReopen s" "\<not> file_isOpen s"
    | (opened) "enabled s" "\<not> toConsole s" "\<not> fileNeedsReopen s" "file_isOpen s"
    | (failure) "enabled s" "\<not> toConsole s" "fileNeedsReopen s"
        "\<not> openable P (resolve P (filename s))"
    | (success) "enabled s" "\<not> toConsole s" "fileNeedsReopen s"
        "openable P (resolve P (filename s))"
    by blast
  then show ?thesis
  proof cases
    case disabled
    then show ?thesis using assms by (simp add: log_disabled)
  next
    case console
    then show ?thesis using assms by (simp add: log_console session_inv_def)
  next
    case closed
    then show ?thesis using assms by (simp add: log_closed session_inv_def emit_def)
  next
    case opened
    then show ?thesis using assms by (simp add: log_open session_inv_def)
  next
    case failure
    then show ?thesis using assms by (simp add: log_open_failure session_inv_def)
  next
    case success
    then show ?thesis using assms by (simp add: log_open_success session_inv_def)
  qed
qed

section \<open>The claims\<close>

subsection \<open>C1: the session after construction\<close>

text \<open>
  Claim C1 says that a freshly constructed object needs reopening, so that its first
  \<open>log\<close> call in file mode resolves the path and tries to open the file. The
  constructor clears the flag instead. C1 as amended: after construction the reopen
  flag and \<open>writing\<close> are false and no file is open; a \<open>log\<close> call on this state
  (file mode is the default, the item is enabled) resolves nothing and opens nothing: it
  reports the critical message that the file is not open and changes nothing else. The
  session needs reopening once \<open>setFilename\<close> has stored a name (one that differs from
  the empty initial name), and the \<open>log\<close> call that follows tries to open the resolved
  path.
\<close>

theorem new_session_closed:
  "\<not> fileNeedsReopen (CSVLogger_new d) \<and> \<not> writing (CSVLogger_new d) \<and>
   \<not> file_isOpen (CSVLogger_new d) \<and>
   log P now data (CSVLogger_new d) = emit (QCritical crit_not_open) (CSVLogger_new d) \<and>
   (name \<noteq> '''' \<longrightarrow>
      fileNeedsReopen (setFilename name (CSVLogger_new d)) \<and>
      OpenFile (resolve P name) (openable P (resolve P name)) \<in>
        set (new_events (setFilename name (CSVLogger_new d))
               (log P now data (setFilename name (CSVLogger_new d)))))"
proof -
  have closed: "log P now data (CSVLogger_new d) = emit (QCritical crit_not_open) (CSVLogger_new d)"
    by (rule log_closed) (simp_all add: CSVLogger_new_def)
  have named: "fileNeedsReopen (setFilename name (CSVLogger_new d)) \<and>
      OpenFile (resolve P name) (openable P (resolve P name)) \<in>
        set (new_events (setFilename name (CSVLogger_new d))
               (log P now data (setFilename name (CSVLogger_new d))))"
    if "name \<noteq> ''''"
  proof -
    define s where "s = setFilename name (CSVLogger_new d)"
    have s: "enabled s" "\<not> toConsole s" "fileNeedsReopen s" "filename s = name"
      using that
      by (simp_all add: s_def setFilename_def CSVLogger_new_def emit_def file_close_def Let_def)
    show ?thesis
      unfolding s_def[symmetric]
      using s by (simp add: log_needs_reopen_trace(1)[OF s(1-3)])
  qed
  show ?thesis
    using closed named by (simp add: CSVLogger_new_def)
qed

theorem new_session_closed_witness:
  "''/x.csv'' \<noteq> '''' \<and> fileNeedsReopen named_session \<and>
   OpenFile ''/x.csv'' True \<in> set (new_events named_session (log (unix []) noon [VInt 3] named_session))"
  using new_session_closed[of Map.empty "unix []" noon "[VInt 3]" "''/x.csv''"]
  by (simp add: named_session_def resolve_def)

theorem new_session_needs_reopen_counterexample:
  "\<not> fileNeedsReopen (CSVLogger_new Map.empty) \<and>
   new_events (CSVLogger_new Map.empty) (log (unix []) noon [VInt 3] (CSVLogger_new Map.empty)) =
     [QCritical crit_not_open]"
proof -
  have "log (unix []) noon [VInt 3] (CSVLogger_new Map.empty) =
      emit (QCritical crit_not_open) (CSVLogger_new Map.empty)"
    by (rule log_closed) (simp_all add: CSVLogger_new_def)
  then show ?thesis
    by (simp add: new_events_def emit_def CSVLogger_new_def)
qed

subsection \<open>C3 and C9: the header and the time flag while writing\<close>

text \<open>
  Claim C3 says that while \<open>writing\<close> is true every call of \<open>setHeader\<close> or
  \<open>setLogTime\<close> leaves the header and the time flag unchanged and produces a
  critical message. A call that proposes the stored value produces no message. C3 as
  amended: while \<open>writing\<close> is true, every call of \<open>setHeader\<close> or \<open>setLogTime\<close>
  leaves the stored header and time flag (and all the rest of the state) unchanged, and
  it produces a critical message exactly when the proposed value differs from the
  stored one.
\<close>

theorem settings_frozen_while_writing:
  assumes "writing s"
  shows "setHeader h s = (if h \<noteq> header s then emit (QCritical crit_setHeader) s else s) \<and>
         setLogTime b s = (if b \<noteq> logTime s then emit (QCritical crit_setLogTime) s else s) \<and>
         header (setHeader h s) = header s \<and> logTime (setHeader h s) = logTime s \<and>
         header (setLogTime b s) = header s \<and> logTime (setLogTime b s) = logTime s"
  using assms by (auto simp: setHeader_def setLogTime_def emit_def)

theorem settings_frozen_while_writing_witness:
  "writing writing_session \<and>
   setHeader [''a''] writing_session = emit (QCritical crit_setHeader) writing_session \<and>
   setLogTime False writing_session = emit (QCritical crit_setLogTime) writing_session \<and>
   header (setHeader [''a''] writing_session) = [] \<and>
   logTime (setLogTime False writing_session)"
  using settings_frozen_while_writing[of writing_session "[''a'']" False]
  by (simp add: emit_def)

theorem setter_same_value_counterexample:
  "writing writing_session \<and> new_events writing_session (setLogTime True writing_session) = [] \<and>
   new_events writing_session (setHeader [] writing_session) = []"
  by (simp add: setLogTime_def setHeader_def new_events_def)

text \<open>
  Claim C9: a call of \<open>setHeader\<close> or \<open>setLogTime\<close> with the stored value changes
  nothing at all, whether \<open>writing\<close> is true or not: no message, no signal, no change
  of state. Hence calling a setter twice with one value leaves the object as calling it
  once does (up to the messages, of which a rejected call adds one each time), and a
  setter reports the critical message only when the object is writing and the value
  differs.
\<close>

theorem setters_same_value_noop:
  "setHeader (header s) s = s \<and> setLogTime (logTime s) s = s \<and>
   (setHeader h (setHeader h s))\<lparr>trace := t\<rparr> = (setHeader h s)\<lparr>trace := t\<rparr> \<and>
   (setLogTime b (setLogTime b s))\<lparr>trace := t\<rparr> = (setLogTime b s)\<lparr>trace := t\<rparr> \<and>
   (\<not> writing s \<longrightarrow> setHeader h (setHeader h s) = setHeader h s \<and>
                    setLogTime b (setLogTime b s) = setLogTime b s) \<and>
   (QCritical crit_setHeader \<in> set (new_events s (setHeader h s)) \<longleftrightarrow>
      writing s \<and> h \<noteq> header s) \<and>
   (QCritical crit_setLogTime \<in> set (new_events s (setLogTime b s)) \<longleftrightarrow>
      writing s \<and> b \<noteq> logTime s)"
  by (auto simp: setHeader_def setLogTime_def emit_def new_events_def)

theorem setters_same_value_noop_witness:
  "setHeader [] writing_session = writing_session \<and>
   setLogTime True writing_session = writing_session \<and>
   \<not> writing named_session \<and>
   setHeader [''a''] (setHeader [''a''] named_session) = setHeader [''a''] named_session \<and>
   setLogTime False (setLogTime False named_session) = setLogTime False named_session"
  using setters_same_value_noop[where s = writing_session and h = "[]" and b = True]
    setters_same_value_noop[where s = named_session and h = "[''a'']" and b = False]
  by simp

subsection \<open>C4 and C10: a file that cannot be opened\<close>

text \<open>
  Claim C4: when a \<open>log\<close> call in file mode cannot open the file, it reports the
  critical message about the failed open as the last thing it does, writes nothing to
  any file, leaves the reopen flag set and \<open>writing\<close> false, and the next \<open>log\<close> call
  (on whatever platform state \<open>P'\<close> it meets) tries again to open the file.
\<close>

theorem open_failure_retried:
  assumes "enabled s" "\<not> toConsole s" "fileNeedsReopen s" "\<not> writing s"
    and "\<not> openable P (resolve P (filename s))"
  shows "last (trace (log P now data s)) =
           QCritical (crit_open @ errorString P (resolve P (filename s))) \<and>
         disk (log P now data s) = disk s \<and>
         wbuf (log P now data s) = wbuf s \<and>
         \<not> file_isOpen (log P now data s) \<and>
         fileNeedsReopen (log P now data s) \<and>
         \<not> writing (log P now data s) \<and>
         OpenFile (resolve P' (filename (log P now data s)))
                  (openable P' (resolve P' (filename (log P now data s)))) \<in>
           set (new_events (log P now data s) (log P' now' data' (log P now data s)))"
proof -
  define s' where "s' = log P now data s"
  have s': "s' = s\<lparr>filename := resolve P (filename s),
      trace := trace s @ reopen_events P (filename s) @
        [OpenFile (resolve P (filename s)) False,
         QCritical (crit_open @ errorString P (resolve P (filename s)))],
      file_isOpen := False,
      file_name := resolve P (filename s)\<rparr>"
    unfolding s'_def using assms(1,2,3,5) by (rule log_open_failure)
  have again: "enabled s'" "\<not> toConsole s'" "fileNeedsReopen s'"
    using assms by (simp_all add: s')
  have "OpenFile (resolve P' (filename s')) (openable P' (resolve P' (filename s'))) \<in>
           set (new_events s' (log P' now' data' s'))"
    by (simp add: log_needs_reopen_trace(1)[OF again])
  moreover have "last (trace s') = QCritical (crit_open @ errorString P (resolve P (filename s)))"
    by (simp add: s')
  moreover have "disk s' = disk s" "wbuf s' = wbuf s" "\<not> file_isOpen s'" "\<not> writing s'"
    using assms by (simp_all add: s')
  ultimately show ?thesis
    using again unfolding s'_def by simp
qed

theorem open_failure_retried_witness:
  "enabled named_session \<and> \<not> toConsole named_session \<and> fileNeedsReopen named_session \<and>
   \<not> writing named_session \<and>
   \<not> openable (unix [''/x.csv'']) (resolve (unix [''/x.csv'']) (filename named_session)) \<and>
   last (trace (log (unix [''/x.csv'']) noon [VInt 3] named_session)) =
     QCritical (crit_open @ ''Permission denied'') \<and>
   disk (log (unix [''/x.csv'']) noon [VInt 3] named_session) = Map.empty \<and>
   fileNeedsReopen (log (unix [''/x.csv'']) noon [VInt 3] named_session) \<and>
   \<not> writing (log (unix [''/x.csv'']) noon [VInt 3] named_session)"
proof -
  have h: "\<not> openable (unix [''/x.csv'']) (resolve (unix [''/x.csv'']) (filename named_session))"
    by (simp add: resolve_def)
  show ?thesis
    using h open_failure_retried[of named_session "unix [''/x.csv'']" noon "[VInt 3]", OF _ _ _ _ h]
    by (simp add: resolve_def)
qed

text \<open>
  Claim C10: when a \<open>log\<close> call in file mode finds the reopen flag set and a relative
  file name, it stores the resolved absolute path (the writable location, a slash, the
  name) as the file name and emits the file-name signal before it tries to open the
  file; and when the open then fails, the stored file name stays rewritten (it differs
  from the name the caller set) while the reopen flag and \<open>writing\<close> are as before.
\<close>

theorem relative_filename_rewritten:
  assumes "enabled s" "\<not> toConsole s" "fileNeedsReopen s" "\<not> isAbsolute P (filename s)"
  shows "filename (log P now data s) = writableLocation P @ ''/'' @ filename s \<and>
         filename (log P now data s) \<noteq> filename s \<and>
         take 4 (new_events s (log P now data s)) =
           [QDebug (''CSVLogger::log(): Absolute path not given, opening '' @
                    writableLocation P @ ''/'' @ filename s @ '' to log.''),
            Emit FilenameChanged,
            Mkpath (absolutePath P (writableLocation P @ ''/'' @ filename s)),
            OpenFile (writableLocation P @ ''/'' @ filename s)
                     (openable P (writableLocation P @ ''/'' @ filename s))] \<and>
         (\<not> openable P (writableLocation P @ ''/'' @ filename s) \<longrightarrow>
            fileNeedsReopen (log P now data s) = fileNeedsReopen s \<and>
            writing (log P now data s) = writing s \<and>
            disk (log P now data s) = disk s)"
proof -
  have r: "resolve P (filename s) = writableLocation P @ ''/'' @ filename s"
    using assms(4) by (simp add: resolve_def)
  have "fileNeedsReopen (log P now data s) = fileNeedsReopen s \<and>
        writing (log P now data s) = writing s \<and> disk (log P now data s) = disk s"
    if "\<not> openable P (writableLocation P @ ''/'' @ filename s)"
    using that assms by (simp add: log_open_failure r)
  moreover have "writableLocation P @ ''/'' @ filename s \<noteq> filename s"
  proof
    assume "writableLocation P @ ''/'' @ filename s = filename s"
    then have "length (writableLocation P @ ''/'' @ filename s) = length (filename s)"
      by simp
    then show False by simp
  qed
  ultimately show ?thesis
    using assms
    by (simp add: log_needs_reopen_trace[OF assms(1-3)] r reopen_events_def)
qed

theorem relative_filename_rewritten_witness:
  "filename (log (unix [''/home/u/Documents/x.csv'']) noon [VInt 3]
      (setFilename ''x.csv'' (CSVLogger_new Map.empty))) = ''/home/u/Documents/x.csv'' \<and>
   fileNeedsReopen (log (unix [''/home/u/Documents/x.csv'']) noon [VInt 3]
      (setFilename ''x.csv'' (CSVLogger_new Map.empty))) \<and>
   \<not> writing (log (unix [''/home/u/Documents/x.csv'']) noon [VInt 3]
      (setFilename ''x.csv'' (CSVLogger_new Map.empty)))"
proof -
  define s where "s = setFilename ''x.csv'' (CSVLogger_new Map.empty)"
  have s: "enabled s" "\<not> toConsole s" "fileNeedsReopen s" "filename s = ''x.csv''"
    "\<not> writing s"
    by (simp_all add: s_def setFilename_def CSVLogger_new_def emit_def file_close_def Let_def)
  have rel: "\<not> isAbsolute (unix [''/home/u/Documents/x.csv'']) (filename s)"
    by (simp add: s)
  show ?thesis
    unfolding s_def[symmetric]
    using relative_filename_rewritten[OF s(1-3) rel, of noon "[VInt 3]"] s
    by simp
qed

subsection \<open>C5: console mode\<close>

text \<open>
  Claim C5: a \<open>log\<close> call of an enabled object in console mode sends exactly one
  formatted data line to the console (after the warning, when the row has another
  length than the header) and touches nothing else: the state afterwards is the state
  before with these events added, so that no file is opened or created, no directory is
  made, and the file name, the reopen flag, \<open>writing\<close>, the file and the disk are as
  they were.
\<close>

theorem console_mode_bypass:
  assumes "enabled s" "toConsole s"
  shows "log P now data s =
           s\<lparr>trace := trace s @
               (if length data \<noteq> length (header s) then [QWarning warn_length] else []) @
               [QDebug (fst (buildLogLine now data s))]\<rparr> \<and>
         filename (log P now data s) = filename s \<and>
         fileNeedsReopen (log P now data s) = fileNeedsReopen s \<and>
         writing (log P now data s) = writing s \<and>
         file_isOpen (log P now data s) = file_isOpen s \<and>
         file_name (log P now data s) = file_name s \<and>
         disk (log P now data s) = disk s"
  using assms by (simp add: log_console buildLogLine_line)

theorem console_mode_bypass_witness:
  "enabled (named_session\<lparr>toConsole := True\<rparr>) \<and> toConsole (named_session\<lparr>toConsole := True\<rparr>) \<and>
   new_events (named_session\<lparr>toConsole := True\<rparr>)
     (log (unix []) noon [] (named_session\<lparr>toConsole := True\<rparr>)) =
     [QDebug ''2016-06-15 12:00:07.042''] \<and>
   disk (log (unix []) noon [] (named_session\<lparr>toConsole := True\<rparr>)) = Map.empty \<and>
   fileNeedsReopen (log (unix []) noon [] (named_session\<lparr>toConsole := True\<rparr>))"
  using console_mode_bypass[of "named_session\<lparr>toConsole := True\<rparr>" "unix []" noon "[]"]
  by (simp add: new_events_def buildLogLine_line data_line_def toString_millis_def
      toString_secs_def noon_def pad0_def dec.simps digit_def)

subsection \<open>C8: a row of another length than the header\<close>

text \<open>
  Claim C8 says that every \<open>log\<close> call whose row has another length than the header
  emits the warning and still delivers the line. The warning comes from the line
  builder, which \<open>log\<close> reaches only when it delivers a line; a call that drops its row
  for another reason emits no warning. C8 as amended: a \<open>log\<close> call of an enabled
  object whose row has another length than the header, in console mode, or in file mode
  with the file open, or in file mode when this call opens the file with success,
  emits the warning and still builds the line from exactly the values of the row (the
  time stamp when the time is logged, then every value rendered, in order) and
  delivers it: to the console, to the end of the open file, or after the header, if
  the file is empty, to the file it opens. The row is not dropped because of its
  length. A call on a disabled object does nothing; a call in file mode that finds no
  file open and none to reopen, or that cannot open the file, reports its critical
  message and drops the row, of whatever length, without the warning and without
  writing to any file.
\<close>

theorem length_mismatch_tolerated:
  assumes "length data \<noteq> length (header s)"
  shows "fst (buildLogLine now data s) =
           join ((if logTime s
                  then [if logMillis s then toString_millis now else toString_secs now]
                  else []) @ map (render (precision s)) data) \<and>
         (enabled s \<and> toConsole s \<longrightarrow>
            new_events s (log P now data s) =
              [QWarning warn_length, QDebug (fst (buildLogLine now data s))]) \<and>
         (enabled s \<and> \<not> toConsole s \<and> \<not> fileNeedsReopen s \<and> file_isOpen s \<and> wbuf s = [] \<longrightarrow>
            new_events s (log P now data s) = [QWarning warn_length] \<and>
            disk (log P now data s) (file_name s) =
              Some (content (disk s) (file_name s) @ fst (buildLogLine now data s) @ newline)) \<and>
         (enabled s \<and> \<not> toConsole s \<and> fileNeedsReopen s \<and> wbuf s = [] \<and>
          openable P (resolve P (filename s)) \<longrightarrow>
            QWarning warn_length \<in> set (new_events s (log P now data s)) \<and>
            disk (log P now data s) (resolve P (filename s)) =
              Some (content (disk s) (resolve P (filename s)) @
                    (if content (disk s) (resolve P (filename s)) = []
                     then buildHeaderString s @ newline else []) @
                    fst (buildLogLine now data s) @ newline)) \<and>
         (\<not> enabled s \<longrightarrow> log P now data s = s) \<and>
         (enabled s \<and> \<not> toConsole s \<and> \<not> fileNeedsReopen s \<and> \<not> file_isOpen s \<longrightarrow>
            new_events s (log P now data s) = [QCritical crit_not_open] \<and>
            disk (log P now data s) = disk s) \<and>
         (enabled s \<and> \<not> toConsole s \<and> fileNeedsReopen s \<and>
          \<not> openable P (resolve P (filename s)) \<longrightarrow>
            new_events s (log P now data s) =
              reopen_events P (filename s) @
              [OpenFile (resolve P (filename s)) False,
               QCritical (crit_open @ errorString P (resolve P (filename s)))] \<and>
            QWarning warn_length \<notin> set (new_events s (log P now data s)) \<and>
            disk (log P now data s) = disk s)"
proof -
  have line: "fst (buildLogLine now data s) =
           join ((if logTime s
                  then [if logMillis s then toString_millis now else toString_secs now]
                  else []) @ map (render (precision s)) data)"
    by (simp add: buildLogLine_line data_line_def)
  have console: "new_events s (log P now data s) =
              [QWarning warn_length, QDebug (fst (buildLogLine now data s))]"
    if "enabled s" "toConsole s"
    using that assms by (simp add: log_console new_events_def buildLogLine_line)
  have opened: "new_events s (log P now data s) = [QWarning warn_length] \<and>
            disk (log P now data s) (file_name s) =
              Some (content (disk s) (file_name s) @ fst (buildLogLine now data s) @ newline)"
    if "enabled s" "\<not> toConsole s" "\<not> fileNeedsReopen s" "file_isOpen s" "wbuf s = []"
    using that assms by (simp add: log_open new_events_def buildLogLine_line)
  have reopened: "QWarning warn_length \<in> set (new_events s (log P now data s)) \<and>
            disk (log P now data s) (resolve P (filename s)) =
              Some (content (disk s) (resolve P (filename s)) @
                    (if content (disk s) (resolve P (filename s)) = []
                     then buildHeaderString s @ newline else []) @
                    fst (buildLogLine now data s) @ newline)"
    if c: "enabled s" "\<not> toConsole s" "fileNeedsReopen s" "wbuf s = []"
      "openable P (resolve P (filename s))"
  proof -
    have "QWarning warn_length \<in> set (new_events s (log P now data s))"
      using c assms by (simp add: log_needs_reopen_trace(1))
    moreover have "disk (log P now data s) (resolve P (filename s)) =
              Some (content (disk s) (resolve P (filename s)) @
                    (if content (disk s) (resolve P (filename s)) = []
                     then buildHeaderString s @ newline else []) @
                    fst (buildLogLine now data s) @ newline)"
      using c assms
      by (simp add: log_def log_reopen_success buildLogLine_eq header_flush emit_def
          content_upd buildHeaderString_line)
    ultimately show ?thesis by simp
  qed
  have disabled: "log P now data s = s" if "\<not> enabled s"
    using that by (rule log_disabled)
  have closed: "new_events s (log P now data s) = [QCritical crit_not_open] \<and>
            disk (log P now data s) = disk s"
    if "enabled s" "\<not> toConsole s" "\<not> fileNeedsReopen s" "\<not> file_isOpen s"
    using that by (simp add: log_closed new_events_def emit_def)
  have failed: "new_events s (log P now data s) =
              reopen_events P (filename s) @
              [OpenFile (resolve P (filename s)) False,
               QCritical (crit_open @ errorString P (resolve P (filename s)))] \<and>
            QWarning warn_length \<notin> set (new_events s (log P now data s)) \<and>
            disk (log P now data s) = disk s"
    if c: "enabled s" "\<not> toConsole s" "fileNeedsReopen s"
      "\<not> openable P (resolve P (filename s))"
  proof -
    have ev: "new_events s (log P now data s) =
              reopen_events P (filename s) @
              [OpenFile (resolve P (filename s)) False,
               QCritical (crit_open @ errorString P (resolve P (filename s)))]"
      using c by (simp add: log_needs_reopen_trace(1))
    have "QWarning warn_length \<notin> set (new_events s (log P now data s))"
      unfolding ev by (simp add: reopen_events_def)
    moreover have "disk (log P now data s) = disk s"
      using c by (simp add: log_open_failure)
    ultimately show ?thesis using ev by simp
  qed
  show ?thesis
    using line console opened reopened disabled closed failed by blast
qed

theorem length_mismatch_tolerated_witness:
  "length [VInt 3] \<noteq> length (header named_session) \<and>
   length [VInt 4, VInt 5] \<noteq> length (header writing_session) \<and>
   new_events (named_session\<lparr>toConsole := True\<rparr>)
     (log (unix []) noon [VInt 3] (named_session\<lparr>toConsole := True\<rparr>)) =
     [QWarning warn_length, QDebug ''2016-06-15 12:00:07.042, 3''] \<and>
   disk (log (unix []) noon [VInt 4, VInt 5] writing_session) ''/x.csv'' =
     Some (''timestamp'' @ newline @ ''2016-06-15 12:00:07.042, 3'' @ newline @
           ''2016-06-15 12:00:07.042, 4, 5'' @ newline) \<and>
   disk (log (unix []) noon [VInt 3] named_session) ''/x.csv'' =
     Some (''timestamp'' @ newline @ ''2016-06-15 12:00:07.042, 3'' @ newline) \<and>
   log (unix []) noon [VInt 3] (named_session\<lparr>enabled := False\<rparr>) =
     named_session\<lparr>enabled := False\<rparr> \<and>
   new_events (CSVLogger_new Map.empty)
     (log (unix []) noon [VInt 3] (CSVLogger_new Map.empty)) = [QCritical crit_not_open] \<and>
   QWarning warn_length \<notin>
     set (new_events named_session (log (unix [''/x.csv'']) noon [VInt 3] named_session))"
  using length_mismatch_tolerated[of "[VInt 3]" "named_session\<lparr>toConsole := True\<rparr>" noon "unix []"]
    length_mismatch_tolerated[of "[VInt 4, VInt 5]" writing_session noon "unix []"]
    length_mismatch_tolerated[of "[VInt 3]" named_session noon "unix []"]
    length_mismatch_tolerated[of "[VInt 3]" "named_session\<lparr>enabled := False\<rparr>" noon "unix []"]
    length_mismatch_tolerated[of "[VInt 3]" "CSVLogger_new Map.empty" noon "unix []"]
    length_mismatch_tolerated[of "[VInt 3]" named_session noon "unix [''/x.csv'']"]
  by (simp add: writing_session_file content_def resolve_def buildLogLine_line data_line_def
      noon_stamp render_def dec.simps digit_def buildHeaderString_line header_line_def
      reopen_events_def CSVLogger_new_def)

theorem length_mismatch_dropped_counterexample:
  "length [VInt 3, VInt 4] \<noteq> length (header (CSVLogger_new Map.empty)) \<and>
   enabled (CSVLogger_new Map.empty) \<and>
   new_events (CSVLogger_new Map.empty)
     (log (unix []) noon [VInt 3, VInt 4] (CSVLogger_new Map.empty)) = [QCritical crit_not_open] \<and>
   disk (log (unix []) noon [VInt 3, VInt 4] (CSVLogger_new Map.empty)) = Map.empty \<and>
   length [VInt 3] \<noteq> length (header named_session) \<and>
   enabled named_session \<and>
   QWarning warn_length \<notin>
     set (new_events named_session (log (unix [''/x.csv'']) noon [VInt 3] named_session)) \<and>
   disk (log (unix [''/x.csv'']) noon [VInt 3] named_session) = Map.empty"
proof -
  have fresh: "log (unix []) noon [VInt 3, VInt 4] (CSVLogger_new Map.empty) =
      emit (QCritical crit_not_open) (CSVLogger_new Map.empty)"
    by (rule log_closed) (simp_all add: CSVLogger_new_def)
  have denied: "\<not> openable (unix [''/x.csv'']) (resolve (unix [''/x.csv'']) (filename named_session))"
    by (simp add: resolve_def)
  have failed: "log (unix [''/x.csv'']) noon [VInt 3] named_session =
      named_session\<lparr>filename := ''/x.csv'',
        trace := trace named_session @ reopen_events (unix [''/x.csv'']) ''/x.csv'' @
          [OpenFile ''/x.csv'' False, QCritical (crit_open @ ''Permission denied'')],
        file_isOpen := False, file_name := ''/x.csv''\<rparr>"
    using log_open_failure[of named_session "unix [''/x.csv'']" noon "[VInt 3]", OF _ _ _ denied]
    by (simp add: resolve_def)
  show ?thesis
    unfolding fresh failed
    by (simp add: new_events_def emit_def CSVLogger_new_def reopen_events_def)
qed

subsection \<open>C2: one header, then the rows\<close>

lemma logs_open:
  assumes "enabled s" "\<not> toConsole s" "\<not> fileNeedsReopen s" "file_isOpen s" "wbuf s = []"
    and "disk s (file_name s) = Some c"
  shows "disk (logs P calls s) (file_name s) =
    Some (c @ concat (map (\<lambda>(now, data).
             data_line (logTime s) (logMillis s) (precision s) now data @ newline) calls))"
  using assms
proof (induction calls arbitrary: s c)
  case Nil
  then show ?case by simp
next
  case (Cons call calls)
  obtain now data where call: "call = (now, data)" by (cases call)
  define s1 where "s1 = log P now data s"
  have s1: "s1 = s\<lparr>trace := trace s @
        (if length data \<noteq> length (header s) then [QWarning warn_length] else []),
      disk := (disk s)(file_name s \<mapsto> content (disk s) (file_name s) @
                data_line (logTime s) (logMillis s) (precision s) now data @ newline)\<rparr>"
    unfolding s1_def using Cons.prems(1-5) by (rule log_open)
  have c: "content (disk s) (file_name s) = c"
    using Cons.prems(6) by (simp add: content_def)
  have "disk (logs P calls s1) (file_name s1) =
    Some ((c @ data_line (logTime s) (logMillis s) (precision s) now data @ newline) @
          concat (map (\<lambda>(now, data).
             data_line (logTime s1) (logMillis s1) (precision s1) now data @ newline) calls))"
    using Cons.prems by (intro Cons.IH) (simp_all add: s1 c)
  then show ?case
    by (simp add: call s1_def[symmetric]) (simp add: s1)
qed

text \<open>
  Claim C2: \<open>N \<ge> 1\<close> \<open>log\<close> calls in file mode on a session that is to open its
  file, when the open succeeds, leave in the file what it held before, then the header
  line if and only if the file was empty when it was opened (absent, or present and
  empty: its position after the open is 0), then the \<open>N\<close> data lines in the order of
  the calls. On a fresh or empty file that is one header line and \<open>N\<close> data lines; a
  file that was not empty gets no further header.
\<close>

theorem header_once:
  assumes "enabled s" "\<not> toConsole s" "fileNeedsReopen s" "wbuf s = []"
    and "openable P (resolve P (filename s))" "calls \<noteq> []"
  shows "disk (logs P calls s) (resolve P (filename s)) =
    Some (content (disk s) (resolve P (filename s)) @
          (if content (disk s) (resolve P (filename s)) = []
           then buildHeaderString s @ newline else []) @
          concat (map (\<lambda>(now, data). fst (buildLogLine now data s) @ newline) calls))"
proof -
  obtain now data rest where calls: "calls = (now, data) # rest"
    using assms(6) by (cases calls) auto
  define p where "p = resolve P (filename s)"
  define old where "old = content (disk s) p"
  define hdr where "hdr = (if old = [] then buildHeaderString s @ newline else [])"
  define s0 where "s0 = s\<lparr>filename := p, fileNeedsReopen := False, writing := True,
      file_name := p, file_isOpen := True,
      disk := (disk s)(p \<mapsto> old @ hdr),
      trace := trace s @ reopen_events P (filename s) @ [OpenFile p True]\<rparr>"
  have reopen: "log_reopen P s = Inr s0"
    using assms(4,5)
    by (simp add: log_reopen_success s0_def p_def old_def hdr_def buildHeaderString_line)
  have s0: "enabled s0" "\<not> toConsole s0" "\<not> fileNeedsReopen s0" "file_isOpen s0"
    "wbuf s0 = []" "disk s0 (file_name s0) = Some (old @ hdr)" "file_name s0 = p"
    using assms by (simp_all add: s0_def)
  have first: "log P now data s = log P now data s0"
    using assms(1-3) s0 by (simp add: log_def reopen)
  have "disk (logs P calls s0) (file_name s0) =
    Some ((old @ hdr) @ concat (map (\<lambda>(now, data).
             data_line (logTime s0) (logMillis s0) (precision s0) now data @ newline) calls))"
    using s0(1-6) by (rule logs_open)
  moreover have "logs P calls s = logs P calls s0"
    by (simp add: calls first)
  ultimately show ?thesis
    by (simp add: s0(7) p_def[symmetric] old_def[symmetric] hdr_def[symmetric]
        buildLogLine_line) (simp add: s0_def)
qed

theorem header_once_witness:
  "disk (logs (unix []) [(noon, [VInt 3]), (noon, [VString ''a'', VBool True])] named_session)
     ''/x.csv'' =
     Some (''timestamp'' @ newline @ ''2016-06-15 12:00:07.042, 3'' @ newline @
           ''2016-06-15 12:00:07.042, a, true'' @ newline) \<and>
   disk (logs (unix []) [(noon, [VInt 3])] (named_session\<lparr>disk := [''/x.csv'' \<mapsto> '''']\<rparr>))
     ''/x.csv'' =
     Some (''timestamp'' @ newline @ ''2016-06-15 12:00:07.042, 3'' @ newline) \<and>
   disk (logs (unix []) [(noon, [VInt 3])]
           (named_session\<lparr>disk := [''/x.csv'' \<mapsto> ''t'' @ newline]\<rparr>)) ''/x.csv'' =
     Some (''t'' @ newline @ ''2016-06-15 12:00:07.042, 3'' @ newline)"
  using header_once[of named_session "unix []"
      "[(noon, [VInt 3]), (noon, [VString ''a'', VBool True])]"]
    header_once[of "named_session\<lparr>disk := [''/x.csv'' \<mapsto> '''']\<rparr>" "unix []" "[(noon, [VInt 3])]"]
    header_once[of "named_session\<lparr>disk := [''/x.csv'' \<mapsto> ''t'' @ newline]\<rparr>" "unix []"
      "[(noon, [VInt 3])]"]
  by (simp add: content_def resolve_def buildLogLine_line data_line_def
      noon_stamp render_def dec.simps digit_def buildHeaderString_line header_line_def
      newline_def)

subsection \<open>C6: a new file name\<close>

text \<open>
  Claim C6: \<open>setFilename\<close> with a name that differs from the stored one flushes the
  stream and closes the file, stores the name, sets the reopen flag, clears \<open>writing\<close>
  and emits the file-name signal, and nothing else. The \<open>log\<close> call that follows (file
  mode, enabled, the open succeeding) opens the path of the new name and writes there
  the header, if that file is empty, and its line; no other file changes.
\<close>

theorem setFilename_reopens:
  assumes "name \<noteq> filename s"
  shows "setFilename name s =
           (writer_flush s)\<lparr>file_isOpen := False, filename := name, fileNeedsReopen := True,
                             writing := False, trace := trace s @ [Emit FilenameChanged]\<rparr> \<and>
         (file_isOpen s \<longrightarrow> wbuf (setFilename name s) = []) \<and>
         \<not> file_isOpen (setFilename name s) \<and>
         filename (setFilename name s) = name \<and>
         fileNeedsReopen (setFilename name s) \<and>
         \<not> writing (setFilename name s) \<and>
         new_events s (setFilename name s) = [Emit FilenameChanged] \<and>
         (enabled s \<and> \<not> toConsole s \<and> wbuf s = [] \<and> openable P (resolve P name) \<longrightarrow>
            disk (setFilename name s) = disk s \<and>
            OpenFile (resolve P name) True \<in>
              set (new_events (setFilename name s) (log P now data (setFilename name s))) \<and>
            disk (log P now data (setFilename name s)) =
              (disk s)(resolve P name \<mapsto>
                 content (disk s) (resolve P name) @
                 (if content (disk s) (resolve P name) = []
                  then buildHeaderString s @ newline else []) @
                 fst (buildLogLine now data s) @ newline))"
proof -
  define s1 where "s1 = setFilename name s"
  have s1: "s1 = (writer_flush s)\<lparr>file_isOpen := False, filename := name,
      fileNeedsReopen := True, writing := False, trace := trace s @ [Emit FilenameChanged]\<rparr>"
    using assms by (simp add: s1_def setFilename_def file_close_def emit_def Let_def)
  have flushed: "wbuf s1 = []" if "file_isOpen s"
    using that by (simp add: s1 writer_flush_def)
  have "disk s1 = disk s \<and>
        OpenFile (resolve P name) True \<in> set (new_events s1 (log P now data s1)) \<and>
        disk (log P now data s1) =
              (disk s)(resolve P name \<mapsto>
                 content (disk s) (resolve P name) @
                 (if content (disk s) (resolve P name) = []
                  then buildHeaderString s @ newline else []) @
                 fst (buildLogLine now data s) @ newline)"
    if c: "enabled s" "\<not> toConsole s" "wbuf s = []" "openable P (resolve P name)"
  proof -
    have s1': "s1 = s\<lparr>file_isOpen := False, filename := name,
      fileNeedsReopen := True, writing := False, trace := trace s @ [Emit FilenameChanged]\<rparr>"
      using c(3) by (simp add: s1 writer_flush_empty)
    have pre: "enabled s1" "\<not> toConsole s1" "fileNeedsReopen s1" "wbuf s1 = []"
      "openable P (resolve P (filename s1))"
      using c by (simp_all add: s1')
    have name: "filename s1 = name"
      by (simp add: s1')
    have "OpenFile (resolve P name) True \<in> set (new_events s1 (log P now data s1))"
      using pre(5) unfolding log_needs_reopen_trace(1)[OF pre(1-3)] name by simp
    moreover have "disk (log P now data s1) =
              (disk s)(resolve P name \<mapsto>
                 content (disk s) (resolve P name) @
                 (if content (disk s) (resolve P name) = []
                  then buildHeaderString s @ newline else []) @
                 fst (buildLogLine now data s) @ newline)"
      using pre
      by (simp add: log_def log_reopen_success buildLogLine_eq header_flush emit_def
          content_upd buildHeaderString_line) (simp add: s1')
    ultimately show ?thesis by (simp add: s1')
  qed
  then show ?thesis
    using flushed unfolding s1_def[symmetric] by (simp add: s1 new_events_def)
qed

theorem setFilename_reopens_witness:
  "''/y.csv'' \<noteq> filename writing_session \<and> file_isOpen writing_session \<and>
   \<not> file_isOpen (setFilename ''/y.csv'' writing_session) \<and>
   fileNeedsReopen (setFilename ''/y.csv'' writing_session) \<and>
   \<not> writing (setFilename ''/y.csv'' writing_session) \<and>
   disk (log (unix []) noon [VInt 4] (setFilename ''/y.csv'' writing_session)) ''/y.csv'' =
     Some (''timestamp'' @ newline @ ''2016-06-15 12:00:07.042, 4'' @ newline) \<and>
   disk (log (unix []) noon [VInt 4] (setFilename ''/y.csv'' writing_session)) ''/x.csv'' =
     Some (''timestamp'' @ newline @ ''2016-06-15 12:00:07.042, 3'' @ newline)"
proof -
  have none: "disk writing_session ''/y.csv'' = None"
    by (simp add: writing_session_def log_def log_reopen_success resolve_def
      buildLogLine_eq header_flush emit_def)
  show ?thesis
    using setFilename_reopens[of "''/y.csv''" writing_session "unix []" noon "[VInt 4]",
        THEN conjunct2]
    by (simp add: writing_session_file none content_def resolve_def buildLogLine_line
        data_line_def noon_stamp render_def dec.simps digit_def buildHeaderString_line
        header_line_def)
qed

subsection \<open>C7: the format of a data line\<close>

text \<open>
  Claim C7 says that every numeric value of a row is rendered with exactly
  \<open>precision\<close> fractional digits. The source renders so only the variants of type
  \<open>Double\<close>; an integer goes through \<open>toString\<close> like a text. C7 as amended: the data
  line is the time stamp (when the time is logged) and the rendered values, in order,
  separated by comma and space; a value of type \<open>Double\<close> that is finite is rendered as
  a fixed-point decimal with exactly \<open>precision\<close> fractional digits (for a
  \<open>precision\<close> that is not negative; the double 3.14159 with precision 2 gives
  \<open>3.14\<close>); every other value, an integer included, is rendered by its text form
  \<open>toString\<close> (the integer 3 gives \<open>3\<close>); and when the time is logged without
  milliseconds, the stamp has the form \<open>YYYY-MM-DD HH:MM:SS\<close> and nothing after it,
  the milliseconds being a point and three digits more when they are logged.
\<close>

theorem data_line_format:
  assumes "0 \<le> precision s" "valid_time now"
  shows "fst (buildLogLine now data s) =
           join ((if logTime s
                  then [if logMillis s then toString_millis now else toString_secs now]
                  else []) @ map (render (precision s)) data) \<and>
         is_fixed (nat (precision s)) (render (precision s) (VDouble (Finite neg m e))) \<and>
         render (precision s) (VInt i) = QVariant_toString (VInt i) \<and>
         render (precision s) (VString t) = t \<and>
         render (precision s) (VBool b) = QVariant_toString (VBool b) \<and>
         is_timestamp (toString_secs now) \<and>
         toString_millis now = toString_secs now @ ''.'' @ pad0 3 (dec (msec now)) \<and>
         length (pad0 3 (dec (msec now))) = 3"
proof -
  have "msec now < 10 ^ 3"
    using assms(2) by (simp add: valid_time_def)
  then have "length (pad0 3 (dec (msec now))) = 3"
    by (intro length_pad0 length_dec) simp_all
  then show ?thesis
    using assms
    by (simp add: buildLogLine_line data_line_def render_def number_f_fixed
        toString_secs_form toString_millis_def)
qed

theorem data_line_format_witness:
  "0 \<le> precision (named_session\<lparr>logMillis := False\<rparr>) \<and> valid_time noon \<and>
   fst (buildLogLine noon [VDouble pi5, VInt 3, VString ''ab'', VBool True]
          (named_session\<lparr>logMillis := False\<rparr>)) = ''2016-06-15 12:00:07, 3.14, 3, ab, true'' \<and>
   is_fixed 2 ''3.14'' \<and> is_timestamp ''2016-06-15 12:00:07''"
proof -
  have stamp: "toString_secs noon = ''2016-06-15 12:00:07''"
    by (simp add: toString_secs_def noon_def pad0_def dec.simps digit_def)
  have pi: "render 2 (VDouble pi5) = ''3.14''"
    by (simp add: render_def QString_number_f_def pi5_def scaled_def dec.simps pad0_def
        digit_def)
  have valid: "valid_time noon"
    by (simp add: valid_time_def noon_def)
  have prec: "0 \<le> precision (named_session\<lparr>logMillis := False\<rparr>)"
    by simp
  show ?thesis
    using data_line_format[OF prec valid, where data = "[VDouble pi5, VInt 3, VString ''ab'', VBool True]"
        and neg = False and m = 7074231776675438 and e = "- 51"]
      valid pi
    by (simp add: stamp pi5_def[symmetric] dec.simps digit_def)
qed

theorem integer_not_fixed_point_counterexample:
  "fst (buildLogLine noon [VInt 3] ((CSVLogger_new Map.empty)\<lparr>logTime := False\<rparr>)) = ''3'' \<and>
   precision ((CSVLogger_new Map.empty)\<lparr>logTime := False\<rparr>) = 2 \<and>
   \<not> is_fixed 2 ''3''"
  by (simp add: buildLogLine_line data_line_def render_def dec.simps digit_def
      CSVLogger_new_def is_fixed_def is_digit_def)

end
